theory Spec2Isabelle
  imports Main "HOL-Library.Sublist" "HOL-Library.Multiset" "HOL-Library.Char_ord" "HOL-Library.List_Lexorder"
begin

section \<open>Strings of the route loader\<close>

text \<open>
  The route loader (\<^verbatim>\<open>route-loader.ts\<close>) works on JavaScript strings. A string is
  modelled as a \<^typ>\<open>string\<close>, one \<^typ>\<open>char\<close> per code unit, so the model covers the
  paths whose code units are below 256. The library functions the loader calls
  (\<^verbatim>\<open>startsWith\<close>, \<^verbatim>\<open>endsWith\<close>, \<^verbatim>\<open>slice\<close>, \<^verbatim>\<open>split\<close>, \<^verbatim>\<open>join\<close>,
  \<^verbatim>\<open>replace\<close>) are written out with the behaviour ECMAScript gives them; none of them
  throws on a string.
\<close>

definition startsWith :: "string \<Rightarrow> string \<Rightarrow> bool" where
  "startsWith s p = (take (length p) s = p)"

definition endsWith :: "string \<Rightarrow> string \<Rightarrow> bool" where
  "endsWith s p = (length p \<le> length s \<and> drop (length s - length p) s = p)"

text \<open>\<^verbatim>\<open>s.slice(start, end)\<close>: a negative index counts from the end, both are clamped.\<close>

definition js_slice :: "string \<Rightarrow> int \<Rightarrow> int \<Rightarrow> string" where
  "js_slice s start end' =
     (let n = int (length s);
          from = (if start < 0 then max (n + start) 0 else min start n);
          to = (if end' < 0 then max (n + end') 0 else min end' n)
      in take (nat (to - from)) (drop (nat from) s))"

text \<open>\<^verbatim>\<open>s.split(sep)\<close> for a separator of one character: never the empty array.\<close>

fun js_split :: "char \<Rightarrow> string \<Rightarrow> string list" where
  "js_split sep [] = [[]]"
| "js_split sep (c # cs) =
     (if c = sep then [] # js_split sep cs
      else (c # hd (js_split sep cs)) # tl (js_split sep cs))"

text \<open>\<^verbatim>\<open>xs.join(sep)\<close>.\<close>

fun js_join :: "string \<Rightarrow> string list \<Rightarrow> string" where
  "js_join sep [] = []"
| "js_join sep [x] = x"
| "js_join sep (x # y # ys) = x @ sep @ js_join sep (y # ys)"

text \<open>\<^verbatim>\<open>path.sep\<close> on a POSIX host, the platform the loader's own regular expression
  (\<^verbatim>\<open>/routes/v1/\<close>) is written for.\<close>

definition path_sep :: char where
  "path_sep = CHR ''/''"

subsection \<open>The two regular expressions of \<^verbatim>\<open>determineRoutePath\<close>\<close>

text \<open>The dot of a regular expression matches every code unit but a line terminator;
  below 256 these are line feed and carriage return. \<^verbatim>\<open>\d\<close> is an ASCII digit.\<close>

definition is_line_terminator :: "char \<Rightarrow> bool" where
  "is_line_terminator c = (c = CHR 0x0A \<or> c = CHR 0x0D)"

definition is_digit :: "char \<Rightarrow> bool" where
  "is_digit c = (c \<in> set ''0123456789'')"

text \<open>\<^verbatim>\<open>\/routes\/v\d+\/\<close> matched at the very start of the string: the rest after
  the match. The digits are taken greedily; giving one back never helps, since the
  character after a shorter run is a digit and not the slash.\<close>

definition match_routes_version :: "string \<Rightarrow> string option" where
  "match_routes_version s =
     (if startsWith s ''/routes/v'' then
        (let r = drop 9 s; ds = takeWhile is_digit r; rest = dropWhile is_digit r
         in if ds \<noteq> [] \<and> startsWith rest ''/'' then Some (drop 1 rest) else None)
      else None)"

text \<open>\<^verbatim>\<open>.*\/routes\/v\d+\/\<close> matched at the very start of the string: the greedy star
  first tries to take one more character and only then the empty repetition.\<close>

fun match_prefix_regex :: "string \<Rightarrow> string option" where
  "match_prefix_regex [] = match_routes_version []"
| "match_prefix_regex (c # cs) =
     (case (if is_line_terminator c then None else match_prefix_regex cs) of
        Some r \<Rightarrow> Some r
      | None \<Rightarrow> match_routes_version (c # cs))"

text \<open>\<^verbatim>\<open>filePath.replace(/.*\/routes\/v\d+\//, '')\<close>: the first position, from the
  left, at which the expression matches; the match is removed.\<close>

fun replace_routes_prefix :: "string \<Rightarrow> string" where
  "replace_routes_prefix [] = []"
| "replace_routes_prefix (c # cs) =
     (case match_prefix_regex (c # cs) of
        Some r \<Rightarrow> r
      | None \<Rightarrow> c # replace_routes_prefix cs)"

text \<open>\<^verbatim>\<open>.replace(/\.(ts|js)$/, '')\<close>: without the multiline flag the dollar is the end
  of the string, so the only possible match is the last three characters.\<close>

definition replace_extension :: "string \<Rightarrow> string" where
  "replace_extension s =
     (if endsWith s ''.ts'' \<or> endsWith s ''.js'' then take (length s - 3) s else s)"

subsection \<open>\<^verbatim>\<open>determineRoutePath\<close>\<close>

text \<open>The callback given to \<^verbatim>\<open>map\<close>: the bracket test comes first, then the test for
  \<^verbatim>\<open>index\<close>.\<close>

definition mapSegment :: "string \<Rightarrow> string" where
  "mapSegment segment =
     (if startsWith segment ''['' \<and> endsWith segment '']'' then '':'' @ js_slice segment 1 (- 1)
      else if segment = ''index'' then ''''
      else segment)"

definition relativePath :: "string \<Rightarrow> string" where
  "relativePath filePath = replace_extension (replace_routes_prefix filePath)"

text \<open>The second parameter, \<^verbatim>\<open>_basePath\<close> in the source, is never read.\<close>

definition determineRoutePath :: "string \<Rightarrow> string \<Rightarrow> string" where
  "determineRoutePath filePath basePath =
     (let routePath =
            js_join ''/'' (filter (\<lambda>s. s \<noteq> [])
              (map mapSegment (js_split path_sep (relativePath filePath))))
      in if \<not> startsWith routePath ''/'' then ''/'' @ routePath else routePath)"

section \<open>The file system, the module loader and the server, as the loader sees them\<close>

text \<open>A thrown value. The loader only passes it to the logger.\<close>

datatype exn = Exn string

text \<open>\<^verbatim>\<open>routeModule.default\<close> after a dynamic import: absent (or any falsy value), a
  value that is not a function, or a function, the route plugin. The type \<open>'p\<close> of
  plugins is left open.\<close>

datatype 'p default_export = Absent | NonFunction | Function 'p

datatype 'p import_result = ImportThrows exn | Module "'p default_export"

text \<open>
  What \<^verbatim>\<open>readdir\<close>, \<^verbatim>\<open>stat\<close> and \<^verbatim>\<open>import\<close> answer below one path. A directory
  holds its entries in the order in which \<^verbatim>\<open>readdir\<close> returns them. \<^verbatim>\<open>stat\<close> follows
  symbolic links, so a link is the node it points to, and a dangling link or a vanished
  entry is \<open>Unresolvable\<close>.
\<close>

datatype 'p fsnode =
    Unresolvable exn
  | Directory "(string \<times> 'p fsnode) list"
  | DirectoryUnreadable exn
  | RegularFile "'p import_result"
  | Special

datatype stat_info = IsDirectory | IsFile | IsOther

fun stat :: "'p fsnode \<Rightarrow> exn + stat_info" where
  "stat (Unresolvable e) = Inl e"
| "stat (Directory entries) = Inr IsDirectory"
| "stat (DirectoryUnreadable e) = Inr IsDirectory"
| "stat (RegularFile m) = Inr IsFile"
| "stat Special = Inr IsOther"

text \<open>The dynamic import of the file at a node. The loader imports regular files only;
  on anything else the import would reject.\<close>

fun import_file :: "'p fsnode \<Rightarrow> 'p import_result" where
  "import_file (RegularFile m) = m"
| "import_file (Unresolvable e) = ImportThrows e"
| "import_file (Directory entries) = ImportThrows (Exn ''ERR_UNSUPPORTED_DIR_IMPORT'')"
| "import_file (DirectoryUnreadable e) = ImportThrows (Exn ''ERR_UNSUPPORTED_DIR_IMPORT'')"
| "import_file Special = ImportThrows (Exn ''ERR_MODULE_NOT_FOUND'')"

text \<open>\<^verbatim>\<open>path.join\<close> of a normalised path and one more component, and
  \<^verbatim>\<open>path.extname\<close> of one component (a name without a slash): the text from the last
  dot on, empty when there is no dot, when the last dot is the first character, and
  for the name \<^verbatim>\<open>..\<close>.\<close>

definition path_join :: "string \<Rightarrow> string \<Rightarrow> string" where
  "path_join a b = (if a = [] then b else if endsWith a ''/'' then a @ b else a @ ''/'' @ b)"

definition extname :: "string \<Rightarrow> string" where
  "extname name =
     (let ext = CHR ''.'' # rev (takeWhile (\<lambda>c. c \<noteq> CHR ''.'') (rev name))
      in if CHR ''.'' \<notin> set name \<or> length ext = length name \<or> name = ''..'' then [] else ext)"

text \<open>
  The loader's effects, in the order in which it performs them: the dynamic import of a
  file, a call of \<^verbatim>\<open>fastify.register\<close> that resolved, and the records handed to
  \<^verbatim>\<open>fastify.log\<close>. The state of a run is the list of the effects so far.
\<close>

datatype log_entry =
    LoadedRoute string string string
  | InvalidExport string
  | FailedToLoad string exn
  | DirectoryError string exn
  | LoadingRoutes string
  | AllRoutesLoaded
  | FailedToLoadRoutes string exn

datatype 'p event =
    Import string
  | Register string 'p
  | Log log_entry

fun registrations :: "'p event list \<Rightarrow> (string \<times> 'p) list" where
  "registrations [] = []"
| "registrations (Register routePath routePlugin # es) = (routePath, routePlugin) # registrations es"
| "registrations (Import fullPath # es) = registrations es"
| "registrations (Log l # es) = registrations es"


text \<open>
  \<^verbatim>\<open>fastify.register\<close> belongs to the server library, not to the loader: whether the
  awaited call resolves (\<open>None\<close>) or rejects with an error is a parameter, which may
  depend on the registrations made so far, on the plugin and on the prefix.
\<close>

type_synonym 'p register = "(string \<times> 'p) list \<Rightarrow> 'p \<Rightarrow> string \<Rightarrow> exn option"

section \<open>\<^verbatim>\<open>loadRoutesFromDirectory\<close> and \<^verbatim>\<open>loadRoutes\<close>\<close>

text \<open>The body of the inner \<^verbatim>\<open>try\<close>: a result \<open>Inl (error, s)\<close> is a throw after
  the effects \<open>s\<close>.\<close>

definition tryLoadRouteFile ::
  "'p register \<Rightarrow> string \<Rightarrow> string \<Rightarrow> 'p import_result \<Rightarrow> 'p event list
     \<Rightarrow> (exn \<times> 'p event list) + 'p event list" where
  "tryLoadRouteFile register fullPath basePath imported s =
     (case imported of
        ImportThrows error \<Rightarrow> Inl (error, s @ [Import fullPath])
      | Module routePlugin \<Rightarrow>
          (case routePlugin of
             Function f \<Rightarrow>
               (let routePath = determineRoutePath fullPath basePath in
                case register (registrations s) f routePath of
                  Some error \<Rightarrow> Inl (error, s @ [Import fullPath])
                | None \<Rightarrow>
                    Inr (s @ [Import fullPath, Register routePath f,
                              Log (LoadedRoute routePath fullPath basePath)]))
           | Absent \<Rightarrow> Inr (s @ [Import fullPath, Log (InvalidExport fullPath)])
           | NonFunction \<Rightarrow> Inr (s @ [Import fullPath, Log (InvalidExport fullPath)])))"

text \<open>The inner \<^verbatim>\<open>try\<close> with its \<^verbatim>\<open>catch\<close>, which logs and does not rethrow.\<close>

definition loadRouteFile ::
  "'p register \<Rightarrow> string \<Rightarrow> string \<Rightarrow> 'p import_result \<Rightarrow> 'p event list \<Rightarrow> 'p event list" where
  "loadRouteFile register fullPath basePath imported s =
     (case tryLoadRouteFile register fullPath basePath imported s of
        Inl (error, s') \<Rightarrow> s' @ [Log (FailedToLoad fullPath error)]
      | Inr s' \<Rightarrow> s')"

text \<open>
  \<open>loadEntries\<close> is the \<^verbatim>\<open>for\<close> loop over the entries, inside the outer
  \<^verbatim>\<open>try\<close>: a throw of \<^verbatim>\<open>stat\<close> leaves the loop. \<open>loadRoutesFromDirectory\<close> is the
  whole function: \<^verbatim>\<open>readdir\<close> (which rejects on everything but a readable
  directory), the loop, and the outer \<^verbatim>\<open>catch\<close>, which logs and does not rethrow.
\<close>

fun loadRoutesFromDirectory ::
  "'p register \<Rightarrow> string \<Rightarrow> string \<Rightarrow> 'p fsnode \<Rightarrow> 'p event list
     \<Rightarrow> (exn \<times> 'p event list) + 'p event list"
and loadEntries ::
  "'p register \<Rightarrow> string \<Rightarrow> string \<Rightarrow> (string \<times> 'p fsnode) list \<Rightarrow> 'p event list
     \<Rightarrow> (exn \<times> 'p event list) + 'p event list" where
  "loadRoutesFromDirectory register dirPath basePath (Directory entries) s =
     (case loadEntries register dirPath basePath entries s of
        Inl (error, s') \<Rightarrow> Inr (s' @ [Log (DirectoryError dirPath error)])
      | Inr s' \<Rightarrow> Inr s')"
| "loadRoutesFromDirectory register dirPath basePath (Unresolvable e) s =
     Inr (s @ [Log (DirectoryError dirPath e)])"
| "loadRoutesFromDirectory register dirPath basePath (DirectoryUnreadable e) s =
     Inr (s @ [Log (DirectoryError dirPath e)])"
| "loadRoutesFromDirectory register dirPath basePath (RegularFile m) s =
     Inr (s @ [Log (DirectoryError dirPath (Exn ''ENOTDIR''))])"
| "loadRoutesFromDirectory register dirPath basePath Special s =
     Inr (s @ [Log (DirectoryError dirPath (Exn ''ENOTDIR''))])"
| "loadEntries register dirPath basePath [] s = Inr s"
| "loadEntries register dirPath basePath ((name, node) # rest) s =
     (let fullPath = path_join dirPath name in
      case stat node of
        Inl error \<Rightarrow> Inl (error, s)
      | Inr statInfo \<Rightarrow>
          (case (if statInfo = IsDirectory then
                   loadRoutesFromDirectory register fullPath (path_join basePath name) node s
                 else if statInfo = IsFile \<and> (extname name = ''.ts'' \<or> extname name = ''.js'') then
                   Inr (loadRouteFile register fullPath basePath (import_file node) s)
                 else Inr s) of
             Inl (error, s') \<Rightarrow> Inl (error, s')
           | Inr s' \<Rightarrow> loadEntries register dirPath basePath rest s'))"

text \<open>\<^verbatim>\<open>loadRoutes\<close>: \<open>root\<close> is what the file system holds at
  \<^verbatim>\<open>join(process.cwd(), 'src', 'routes')\<close>. Its \<^verbatim>\<open>catch\<close> logs and rethrows.\<close>

definition routesDir :: "string \<Rightarrow> string" where
  "routesDir cwd = path_join (path_join cwd ''src'') ''routes''"

definition loadRoutes ::
  "'p register \<Rightarrow> string \<Rightarrow> 'p fsnode \<Rightarrow> 'p event list \<Rightarrow> (exn \<times> 'p event list) + 'p event list" where
  "loadRoutes register cwd root s =
     (case loadRoutesFromDirectory register (routesDir cwd) '''' root
             (s @ [Log (LoadingRoutes (routesDir cwd))]) of
        Inr s' \<Rightarrow> Inr (s' @ [Log AllRoutesLoaded])
      | Inl (error, s') \<Rightarrow> Inl (error, s' @ [Log (FailedToLoadRoutes (routesDir cwd) error)]))"

section \<open>Notions used to state the properties\<close>

subsection \<open>Of the path transformer\<close>

text \<open>The segments that \<^verbatim>\<open>determineRoutePath\<close> maps, and the ones it keeps.\<close>

definition relativeSegments :: "string \<Rightarrow> string list" where
  "relativeSegments filePath = js_split path_sep (relativePath filePath)"

definition routeSegments :: "string \<Rightarrow> string list" where
  "routeSegments filePath = filter (\<lambda>s. s \<noteq> []) (map mapSegment (relativeSegments filePath))"

text \<open>A place in the string at which \<^verbatim>\<open>\/routes\/v\d+\/\<close> matches.\<close>

fun has_marker :: "string \<Rightarrow> bool" where
  "has_marker [] = False"
| "has_marker (c # cs) =
     (case match_routes_version (c # cs) of Some r \<Rightarrow> True | None \<Rightarrow> has_marker cs)"

text \<open>A segment wrapped in a bracket pair, \<^verbatim>\<open>[name]\<close>, and its name.\<close>

definition bracket_name :: "string \<Rightarrow> string option" where
  "bracket_name seg =
     (if 2 \<le> length seg \<and> hd seg = CHR ''['' \<and> last seg = CHR '']''
      then Some (butlast (tl seg)) else None)"

text \<open>The rule for one segment in the words of the specification: \<^verbatim>\<open>index\<close> is
  elided, \<^verbatim>\<open>[name]\<close> becomes \<^verbatim>\<open>:name\<close>, anything else is kept.\<close>

definition spec_segment :: "string \<Rightarrow> string" where
  "spec_segment seg =
     (if seg = ''index'' then []
      else case bracket_name seg of Some name \<Rightarrow> '':'' @ name | None \<Rightarrow> seg)"

text \<open>The parameter names a URL pattern declares: the text after the colon of every
  segment that starts with a colon, from left to right. The loader returns the pattern
  only; this reads the names off it.\<close>

definition dynamicParamNames :: "string \<Rightarrow> string list" where
  "dynamicParamNames urlPattern =
     map (drop 1) (filter (\<lambda>s. startsWith s '':'') (js_split CHR ''/'' urlPattern))"


subsection \<open>Of the walk\<close>

text \<open>
  What the loader meets on its way through a tree, in the order in which it meets it: a
  candidate file (full path, base path, the outcome of its import) or a directory whose
  processing failed. An entry that \<^verbatim>\<open>stat\<close> cannot resolve ends the loop over its
  directory, so the entries listed after it are not visited.
\<close>

datatype 'p item =
    Candidate string string "'p import_result"
  | DirectoryFailure string exn

fun walkEntries :: "string \<Rightarrow> string \<Rightarrow> (string \<times> 'p fsnode) list \<Rightarrow> 'p item list" where
  "walkEntries dirPath basePath [] = []"
| "walkEntries dirPath basePath ((name, Unresolvable e) # rest) = [DirectoryFailure dirPath e]"
| "walkEntries dirPath basePath ((name, Directory entries) # rest) =
     walkEntries (path_join dirPath name) (path_join basePath name) entries
       @ walkEntries dirPath basePath rest"
| "walkEntries dirPath basePath ((name, DirectoryUnreadable e) # rest) =
     DirectoryFailure (path_join dirPath name) e # walkEntries dirPath basePath rest"
| "walkEntries dirPath basePath ((name, RegularFile imported) # rest) =
     (if extname name = ''.ts'' \<or> extname name = ''.js''
      then [Candidate (path_join dirPath name) basePath imported] else [])
       @ walkEntries dirPath basePath rest"
| "walkEntries dirPath basePath ((name, Special) # rest) = walkEntries dirPath basePath rest"

fun walk :: "string \<Rightarrow> string \<Rightarrow> 'p fsnode \<Rightarrow> 'p item list" where
  "walk dirPath basePath (Directory entries) = walkEntries dirPath basePath entries"
| "walk dirPath basePath (Unresolvable e) = [DirectoryFailure dirPath e]"
| "walk dirPath basePath (DirectoryUnreadable e) = [DirectoryFailure dirPath e]"
| "walk dirPath basePath (RegularFile m) = [DirectoryFailure dirPath (Exn ''ENOTDIR'')]"
| "walk dirPath basePath Special = [DirectoryFailure dirPath (Exn ''ENOTDIR'')]"

fun candidates :: "'p item list \<Rightarrow> (string \<times> string \<times> 'p import_result) list" where
  "candidates [] = []"
| "candidates (Candidate fullPath basePath imported # items) =
     (fullPath, basePath, imported) # candidates items"
| "candidates (DirectoryFailure dirPath e # items) = candidates items"








text \<open>The events of one candidate's pipeline, given the registrations made before it,
  and of one item.\<close>

definition file_events ::
  "'p register \<Rightarrow> (string \<times> 'p) list \<Rightarrow> string \<Rightarrow> string \<Rightarrow> 'p import_result \<Rightarrow> 'p event list" where
  "file_events register rs fullPath basePath imported =
     (case imported of
        ImportThrows error \<Rightarrow> [Import fullPath, Log (FailedToLoad fullPath error)]
      | Module Absent \<Rightarrow> [Import fullPath, Log (InvalidExport fullPath)]
      | Module NonFunction \<Rightarrow> [Import fullPath, Log (InvalidExport fullPath)]
      | Module (Function f) \<Rightarrow>
          (case register rs f (determineRoutePath fullPath basePath) of
             Some error \<Rightarrow> [Import fullPath, Log (FailedToLoad fullPath error)]
           | None \<Rightarrow>
               [Import fullPath, Register (determineRoutePath fullPath basePath) f,
                Log (LoadedRoute (determineRoutePath fullPath basePath) fullPath basePath)]))"

fun item_events :: "'p register \<Rightarrow> (string \<times> 'p) list \<Rightarrow> 'p item \<Rightarrow> 'p event list" where
  "item_events register rs (Candidate fullPath basePath imported) =
     file_events register rs fullPath basePath imported"
| "item_events register rs (DirectoryFailure dirPath e) = [Log (DirectoryError dirPath e)]"

text \<open>The run over a list of items as one block of events per item, each block computed
  from the registrations of the blocks before it.\<close>

fun run_blocks :: "'p register \<Rightarrow> (string \<times> 'p) list \<Rightarrow> 'p item list \<Rightarrow> 'p event list list" where
  "run_blocks register rs [] = []"
| "run_blocks register rs (item # items) =
     item_events register rs item
       # run_blocks register (rs @ registrations (item_events register rs item)) items"

text \<open>An event that belongs to an item: the import, the registration or the log record
  of that candidate file, or the log record of that directory failure.\<close>

fun log_about :: "string \<Rightarrow> log_entry \<Rightarrow> bool" where
  "log_about fullPath (LoadedRoute routePath filePath basePath) = (filePath = fullPath)"
| "log_about fullPath (InvalidExport filePath) = (filePath = fullPath)"
| "log_about fullPath (FailedToLoad filePath e) = (filePath = fullPath)"
| "log_about fullPath (DirectoryError dirPath e) = False"
| "log_about fullPath (LoadingRoutes d) = False"
| "log_about fullPath AllRoutesLoaded = False"
| "log_about fullPath (FailedToLoadRoutes d e) = False"

fun event_of_item :: "'p item \<Rightarrow> 'p event \<Rightarrow> bool" where
  "event_of_item (Candidate fullPath basePath imported) (Import p) = (p = fullPath)"
| "event_of_item (Candidate fullPath basePath imported) (Register routePath f) =
     (routePath = determineRoutePath fullPath basePath \<and> imported = Module (Function f))"
| "event_of_item (Candidate fullPath basePath imported) (Log l) = log_about fullPath l"
| "event_of_item (DirectoryFailure dirPath e) ev = (ev = Log (DirectoryError dirPath e))"

text \<open>The step of the run for one item.\<close>

fun processItem :: "'p register \<Rightarrow> 'p event list \<Rightarrow> 'p item \<Rightarrow> 'p event list" where
  "processItem register s (Candidate fullPath basePath imported) =
     loadRouteFile register fullPath basePath imported s"
| "processItem register s (DirectoryFailure dirPath e) = s @ [Log (DirectoryError dirPath e)]"

subsection \<open>Of good and bad candidates\<close>

text \<open>The registration a candidate leads to when the server accepts it.\<close>

fun expected_registration :: "string \<times> string \<times> 'p import_result \<Rightarrow> (string \<times> 'p) list" where
  "expected_registration (fullPath, basePath, Module (Function f)) =
     [(determineRoutePath fullPath basePath, f)]"
| "expected_registration (fullPath, basePath, Module Absent) = []"
| "expected_registration (fullPath, basePath, Module NonFunction) = []"
| "expected_registration (fullPath, basePath, ImportThrows e) = []"





subsection \<open>Of order and of duplicate routes\<close>




text \<open>A server that accepts every registration.\<close>

definition always_accepts :: "'p register" where
  "always_accepts rs routePlugin mount = None"





section \<open>Facts about the string operations\<close>


lemma js_split_not_Nil: "js_split sep s \<noteq> []"
  by (induction s) auto

lemma js_split_no_sep: "x \<in> set (js_split sep s) \<Longrightarrow> sep \<notin> set x"
proof (induction s arbitrary: x)
  case Nil
  then show ?case by simp
next
  case (Cons c cs)
  obtain y ys where ys: "js_split sep cs = y # ys"
    using js_split_not_Nil [of sep cs] by (cases "js_split sep cs") auto
  show ?case
  proof (cases "c = sep")
    case True
    with Cons show ?thesis by auto
  next
    case False
    with Cons ys show ?thesis by auto
  qed
qed

lemma startsWith_char: "startsWith s [c] \<longleftrightarrow> s \<noteq> [] \<and> hd s = c"
  by (cases s) (auto simp: startsWith_def)

lemma endsWith_char: "endsWith s [c] \<longleftrightarrow> s \<noteq> [] \<and> last s = c"
proof (cases s rule: rev_cases)
  case Nil
  then show ?thesis by (simp add: endsWith_def)
next
  case (snoc ys y)
  then show ?thesis by (auto simp: endsWith_def)
qed

lemma js_slice_inner: "js_slice s 1 (- 1) = butlast (tl s)"
proof (cases s)
  case Nil
  then show ?thesis by (simp add: js_slice_def)
next
  case (Cons a as)
  have "take (length as - 1) as = butlast as"
    by (simp add: butlast_conv_take)
  with Cons show ?thesis
    by (simp add: js_slice_def Let_def nat_diff_distrib')
qed

lemma mapSegment_chars:
  "mapSegment seg =
     (if seg \<noteq> [] \<and> hd seg = CHR ''['' \<and> last seg = CHR '']'' then '':'' @ butlast (tl seg)
      else if seg = ''index'' then [] else seg)"
  by (simp add: mapSegment_def startsWith_char endsWith_char js_slice_inner)

lemma bracket_name_iff: "bracket_name seg = Some name \<longleftrightarrow> seg = ''['' @ name @ '']''"
proof
  assume "bracket_name seg = Some name"
  then have l: "2 \<le> length seg" and h: "hd seg = CHR ''[''" and e: "last seg = CHR '']''"
    and n: "name = butlast (tl seg)"
    by (auto simp: bracket_name_def split: if_splits)
  from l obtain a as where s: "seg = a # as" and "as \<noteq> []"
    by (cases seg) (auto simp: Suc_le_eq)
  then have "as = butlast as @ [last as]" by simp
  with s h e n \<open>as \<noteq> []\<close> show "seg = ''['' @ name @ '']''" by simp
next
  assume "seg = ''['' @ name @ '']''"
  then show "bracket_name seg = Some name" by (simp add: bracket_name_def)
qed

lemma bracket_name_None: "bracket_name seg = None \<longleftrightarrow> \<not> (seg \<noteq> [] \<and> hd seg = CHR ''['' \<and> last seg = CHR '']'')"
proof (cases seg)
  case Nil
  then show ?thesis by (simp add: bracket_name_def)
next
  case (Cons a as)
  then show ?thesis by (cases as) (auto simp: bracket_name_def)
qed

lemma mapSegment_no_slash: "CHR ''/'' \<notin> set seg \<Longrightarrow> CHR ''/'' \<notin> set (mapSegment seg)"
  by (auto simp: mapSegment_chars dest: in_set_butlastD list.set_sel(2))

lemma js_join_Cons: "js_join sep (x # xs) = (if xs = [] then x else x @ sep @ js_join sep xs)"
  by (cases xs) auto

lemma js_join_not_slash:
  "\<forall>x \<in> set xs. x \<noteq> [] \<and> CHR ''/'' \<notin> set x \<Longrightarrow> \<not> startsWith (js_join ''/'' xs) ''/''"
proof (cases xs)
  case Nil
  then show ?thesis by (simp add: startsWith_def)
next
  case (Cons a as)
  assume "\<forall>x \<in> set xs. x \<noteq> [] \<and> CHR ''/'' \<notin> set x"
  with Cons have "a \<noteq> []" and "CHR ''/'' \<notin> set a" by auto
  then have "hd a \<noteq> CHR ''/''" by (cases a) auto
  with Cons \<open>a \<noteq> []\<close> show ?thesis
    by (simp add: startsWith_char js_join_Cons hd_append)
qed

lemma js_split_append_sep:
  "sep \<notin> set x \<Longrightarrow> js_split sep (x @ sep # s) = x # js_split sep s"
  by (induction x) auto

lemma js_split_no_sep_id: "sep \<notin> set x \<Longrightarrow> js_split sep x = [x]"
  by (induction x) auto

lemma js_split_join:
  "xs \<noteq> [] \<Longrightarrow> \<forall>x \<in> set xs. CHR ''/'' \<notin> set x \<Longrightarrow> js_split CHR ''/'' (js_join ''/'' xs) = xs"
proof (induction xs)
  case Nil
  then show ?case by simp
next
  case (Cons x xs)
  show ?case
  proof (cases xs)
    case Nil
    with Cons.prems show ?thesis by (simp add: js_split_no_sep_id)
  next
    case (Cons y ys)
    with Cons.IH Cons.prems show ?thesis
      by (simp add: js_split_append_sep del: js_split.simps)
  qed
qed

lemma routeSegments_props:
  "x \<in> set (routeSegments filePath) \<Longrightarrow> x \<noteq> [] \<and> CHR ''/'' \<notin> set x"
  by (auto simp: routeSegments_def relativeSegments_def path_sep_def
      dest!: js_split_no_sep mapSegment_no_slash)

lemma determineRoutePath_eq:
  "determineRoutePath filePath basePath = ''/'' @ js_join ''/'' (routeSegments filePath)"
proof -
  have "\<not> startsWith (js_join ''/'' (routeSegments filePath)) ''/''"
    by (rule js_join_not_slash) (simp add: routeSegments_props)
  then show ?thesis
    by (simp add: determineRoutePath_def routeSegments_def relativeSegments_def Let_def)
qed

lemma js_split_determineRoutePath:
  "js_split CHR ''/'' (determineRoutePath filePath basePath) =
     [] # (if routeSegments filePath = [] then [[]] else routeSegments filePath)"
proof (cases "routeSegments filePath = []")
  case True
  then show ?thesis by (simp add: determineRoutePath_eq)
next
  case False
  have "js_split CHR ''/'' (js_join ''/'' (routeSegments filePath)) = routeSegments filePath"
    using False by (rule js_split_join) (simp add: routeSegments_props)
  with False show ?thesis by (simp add: determineRoutePath_eq)
qed

lemma spec_segment_eq: "spec_segment seg = mapSegment seg"
proof (cases "bracket_name seg")
  case None
  then have "\<not> (seg \<noteq> [] \<and> hd seg = CHR ''['' \<and> last seg = CHR '']'')"
    by (simp add: bracket_name_None)
  then show ?thesis
    unfolding spec_segment_def mapSegment_chars None by auto
next
  case (Some name)
  then have "seg = ''['' @ name @ '']''" by (simp add: bracket_name_iff)
  then show ?thesis
    by (simp add: spec_segment_def mapSegment_chars bracket_name_def)
qed

lemma dynamicParamNames_determineRoutePath:
  "dynamicParamNames (determineRoutePath filePath basePath) =
     map (drop 1) (filter (\<lambda>s. startsWith s '':'') (routeSegments filePath))"
  by (simp add: dynamicParamNames_def js_split_determineRoutePath startsWith_def)

subsection \<open>The regular expressions on the path of a route file\<close>

lemma match_routes_version_Nil: "match_routes_version [] = None"
  by (simp add: match_routes_version_def startsWith_def)

lemma match_routes_version_not_slash:
  "c \<noteq> CHR ''/'' \<Longrightarrow> match_routes_version (c # cs) = None"
  by (simp add: match_routes_version_def startsWith_def)

lemma match_routes_version_not_r:
  "c \<noteq> CHR ''r'' \<Longrightarrow> match_routes_version (CHR ''/'' # c # cs) = None"
  by (simp add: match_routes_version_def startsWith_def)

lemma match_prefix_regex_no_marker: "\<not> has_marker u \<Longrightarrow> match_prefix_regex u = None"
  by (induction u) (auto simp: match_routes_version_Nil split: option.splits)

lemma is_digit_not_slash: "is_digit c \<Longrightarrow> c \<noteq> CHR ''/''"
  by (auto simp: is_digit_def)

lemma has_marker_digits:
  "\<forall>c \<in> set ds. is_digit c \<Longrightarrow> has_marker (ds @ u) = has_marker u"
  by (induction ds) (auto simp: match_routes_version_not_slash is_digit_not_slash)

lemma match_routes_version_marker:
  assumes "ds \<noteq> []" and "\<forall>c \<in> set ds. is_digit c"
  shows "match_routes_version (''/routes/v'' @ ds @ ''/'' @ u) = Some u"
proof -
  have "\<not> is_digit CHR ''/''" by (simp add: is_digit_def)
  then have "takeWhile is_digit (ds @ CHR ''/'' # u) = ds"
    and "dropWhile is_digit (ds @ CHR ''/'' # u) = CHR ''/'' # u"
    using assms(2) by (simp_all add: takeWhile_append2 dropWhile_append2)
  with assms(1) show ?thesis
    by (simp add: match_routes_version_def startsWith_def Let_def)
qed

lemma match_prefix_regex_marker:
  assumes "ds \<noteq> []" and "\<forall>c \<in> set ds. is_digit c" and "\<not> has_marker (''/'' @ u)"
  shows "match_prefix_regex (''/routes/v'' @ ds @ ''/'' @ u) = Some u"
proof -
  have "\<not> has_marker (ds @ ''/'' @ u)"
    using has_marker_digits [OF assms(2), of "''/'' @ u"] assms(3) by simp
  then have "\<not> has_marker (''routes/v'' @ ds @ ''/'' @ u)"
    by (simp add: match_routes_version_not_slash match_routes_version_not_r)
  then have "match_prefix_regex (''routes/v'' @ ds @ ''/'' @ u) = None"
    by (rule match_prefix_regex_no_marker)
  moreover have "match_routes_version (''/routes/v'' @ ds @ ''/'' @ u) = Some u"
    using assms(1,2) by (rule match_routes_version_marker)
  ultimately show ?thesis
    by (simp add: is_line_terminator_def)
qed

lemma match_prefix_regex_root:
  assumes "\<forall>c \<in> set root. \<not> is_line_terminator c"
    and "match_prefix_regex u = Some r"
  shows "match_prefix_regex (root @ u) = Some r"
  using assms by (induction root) auto

lemma replace_routes_prefix_marker:
  assumes "\<forall>c \<in> set root. \<not> is_line_terminator c"
    and "ds \<noteq> []" and "\<forall>c \<in> set ds. is_digit c" and "\<not> has_marker (''/'' @ u)"
  shows "replace_routes_prefix (root @ ''/routes/v'' @ ds @ ''/'' @ u) = u"
proof -
  have m: "match_prefix_regex (root @ ''/routes/v'' @ ds @ ''/'' @ u) = Some u"
    using assms(1) match_prefix_regex_marker [OF assms(2,3,4)]
    by (rule match_prefix_regex_root)
  obtain c cs where "root @ ''/routes/v'' @ ds @ ''/'' @ u = c # cs"
    by (cases "root @ ''/routes/v'' @ ds @ ''/'' @ u") auto
  with m show ?thesis by simp
qed

lemma replace_extension_ext:
  "ext = ''.ts'' \<or> ext = ''.js'' \<Longrightarrow> replace_extension (rel @ ext) = rel"
  by (auto simp: replace_extension_def endsWith_def)

lemma relativePath_route_file:
  assumes "\<forall>c \<in> set root. \<not> is_line_terminator c"
    and "ds \<noteq> []" and "\<forall>c \<in> set ds. is_digit c"
    and "\<not> has_marker (''/'' @ rel @ ext)"
    and "ext = ''.ts'' \<or> ext = ''.js''"
  shows "relativePath (root @ ''/routes/v'' @ ds @ ''/'' @ rel @ ext) = rel"
  using replace_routes_prefix_marker [OF assms(1,2,3,4)] replace_extension_ext [OF assms(5)]
  by (simp add: relativePath_def)

lemma determineRoutePath_route_file:
  assumes "\<forall>c \<in> set root. \<not> is_line_terminator c"
    and "ds \<noteq> []" and "\<forall>c \<in> set ds. is_digit c"
    and "segs \<noteq> []" and "\<forall>x \<in> set segs. CHR ''/'' \<notin> set x"
    and "\<not> has_marker (''/'' @ js_join ''/'' segs @ ext)"
    and "ext = ''.ts'' \<or> ext = ''.js''"
  shows "determineRoutePath (root @ ''/routes/v'' @ ds @ ''/'' @ js_join ''/'' segs @ ext) basePath
     = ''/'' @ js_join ''/'' (filter (\<lambda>s. s \<noteq> []) (map spec_segment segs))"
proof -
  have "relativePath (root @ ''/routes/v'' @ ds @ ''/'' @ js_join ''/'' segs @ ext)
      = js_join ''/'' segs"
    using assms(1,2,3,6,7) by (rule relativePath_route_file)
  moreover have "js_split CHR ''/'' (js_join ''/'' segs) = segs"
    using assms(4,5) by (rule js_split_join)
  moreover have "spec_segment = mapSegment"
    by (rule ext) (rule spec_segment_eq)
  ultimately show ?thesis
    by (simp add: determineRoutePath_eq routeSegments_def relativeSegments_def path_sep_def)
qed




section \<open>The path transformer\<close>

text \<open>
  C4. The transformer maps \<^verbatim>\<open>users/index\<close> to \<^verbatim>\<open>/users\<close>, \<^verbatim>\<open>users/[id]\<close> to
  \<^verbatim>\<open>/users/:id\<close>, whose parameter names are \<^verbatim>\<open>["id"]\<close>, \<^verbatim>\<open>a/b/[x]/[y]\<close> to
  \<^verbatim>\<open>/a/b/:x/:y\<close> and the root-level \<^verbatim>\<open>index\<close> to \<^verbatim>\<open>/\<close>, as relative paths and as
  the full paths of the files below a versioned routes directory. For every file path
  the result is the rule of the specification applied to the segments of the relative
  path: every \<^verbatim>\<open>index\<close> segment is elided, every \<^verbatim>\<open>[name]\<close> segment becomes
  \<^verbatim>\<open>:name\<close>, other segments are kept, empty segments are discarded, and the rest is
  joined with \<^verbatim>\<open>/\<close> behind a leading \<^verbatim>\<open>/\<close>. For a file with the segments \<open>segs\<close>
  below \<^verbatim>\<open>routes/v<digits>/\<close>, these are the segments the rule is applied to, when no
  line terminator precedes them and no further \<^verbatim>\<open>/routes/v<digits>/\<close> follows.
\<close>

theorem determineRoutePath_table:
  "((\<forall>c \<in> set root. \<not> is_line_terminator c) \<and> ds \<noteq> [] \<and> (\<forall>c \<in> set ds. is_digit c)
      \<and> segs \<noteq> [] \<and> (\<forall>x \<in> set segs. CHR ''/'' \<notin> set x)
      \<and> \<not> has_marker (''/'' @ js_join ''/'' segs @ ext) \<and> (ext = ''.ts'' \<or> ext = ''.js'')
     \<longrightarrow> determineRoutePath (root @ ''/routes/v'' @ ds @ ''/'' @ js_join ''/'' segs @ ext) basePath
          = ''/'' @ js_join ''/'' (filter (\<lambda>s. s \<noteq> []) (map spec_segment segs)))
   \<and> determineRoutePath filePath basePath =
       ''/'' @ js_join ''/'' (filter (\<lambda>s. s \<noteq> []) (map spec_segment (relativeSegments filePath)))
   \<and> determineRoutePath ''users/index'' basePath = ''/users''
   \<and> determineRoutePath ''users/[id]'' basePath = ''/users/:id''
   \<and> dynamicParamNames (determineRoutePath ''users/[id]'' basePath) = [''id'']
   \<and> determineRoutePath ''a/b/[x]/[y]'' basePath = ''/a/b/:x/:y''
   \<and> determineRoutePath ''index'' basePath = ''/''
   \<and> determineRoutePath ''/app/src/routes/v1/users/index.ts'' basePath = ''/users''
   \<and> determineRoutePath ''/app/src/routes/v1/users/[id].ts'' basePath = ''/users/:id''
   \<and> determineRoutePath ''/app/src/routes/v1/a/b/[x]/[y].js'' basePath = ''/a/b/:x/:y''
   \<and> determineRoutePath ''/app/src/routes/v1/index.ts'' basePath = ''/''"
proof -
  have general: "determineRoutePath filePath basePath =
       ''/'' @ js_join ''/'' (filter (\<lambda>s. s \<noteq> []) (map spec_segment (relativeSegments filePath)))"
  proof -
    have "spec_segment = mapSegment"
      by (rule ext) (rule spec_segment_eq)
    then show ?thesis
      by (simp add: determineRoutePath_eq routeSegments_def)
  qed
  have below: "(\<forall>c \<in> set root. \<not> is_line_terminator c) \<and> ds \<noteq> [] \<and> (\<forall>c \<in> set ds. is_digit c)
      \<and> segs \<noteq> [] \<and> (\<forall>x \<in> set segs. CHR ''/'' \<notin> set x)
      \<and> \<not> has_marker (''/'' @ js_join ''/'' segs @ ext) \<and> (ext = ''.ts'' \<or> ext = ''.js'')
     \<longrightarrow> determineRoutePath (root @ ''/routes/v'' @ ds @ ''/'' @ js_join ''/'' segs @ ext) basePath
          = ''/'' @ js_join ''/'' (filter (\<lambda>s. s \<noteq> []) (map spec_segment segs))"
  proof (intro impI, elim conjE)
    assume "\<forall>c \<in> set root. \<not> is_line_terminator c" "ds \<noteq> []" "\<forall>c \<in> set ds. is_digit c"
      "segs \<noteq> []" "\<forall>x \<in> set segs. CHR ''/'' \<notin> set x"
      "\<not> has_marker (''/'' @ js_join ''/'' segs @ ext)" "ext = ''.ts'' \<or> ext = ''.js''"
    then show "determineRoutePath (root @ ''/routes/v'' @ ds @ ''/'' @ js_join ''/'' segs @ ext) basePath
          = ''/'' @ js_join ''/'' (filter (\<lambda>s. s \<noteq> []) (map spec_segment segs))"
      by (rule determineRoutePath_route_file)
  qed
  have t1: "determineRoutePath ''users/index'' basePath = ''/users''" by code_simp
  have t2: "determineRoutePath ''users/[id]'' basePath = ''/users/:id''" by code_simp
  have t3: "dynamicParamNames ''/users/:id'' = [''id'']" by code_simp
  have t4: "determineRoutePath ''a/b/[x]/[y]'' basePath = ''/a/b/:x/:y''" by code_simp
  have t5: "determineRoutePath ''index'' basePath = ''/''" by code_simp
  have t6: "determineRoutePath ''/app/src/routes/v1/users/index.ts'' basePath = ''/users''"
    by code_simp
  have t7: "determineRoutePath ''/app/src/routes/v1/users/[id].ts'' basePath = ''/users/:id''"
    by code_simp
  have t8: "determineRoutePath ''/app/src/routes/v1/a/b/[x]/[y].js'' basePath = ''/a/b/:x/:y''"
    by code_simp
  have t9: "determineRoutePath ''/app/src/routes/v1/index.ts'' basePath = ''/''" by code_simp
  have t3': "dynamicParamNames (determineRoutePath ''users/[id]'' basePath) = [''id'']"
    by (simp only: t2 t3)
  show ?thesis
    by (intro conjI) (rule below, rule general, rule t1, rule t2, rule t3', rule t4, rule t5,
        rule t6, rule t7, rule t8, rule t9)
qed

theorem determineRoutePath_table_witness:
  "''7'' \<noteq> [] \<and> [''orders'', ''[orderId]'', ''index''] \<noteq> []
   \<and> \<not> has_marker (''/'' @ js_join ''/'' [''orders'', ''[orderId]'', ''index''] @ ''.ts'')
   \<and> determineRoutePath ''/srv/api/src/routes/v7/orders/[orderId]/index.ts'' ''v7/orders/[orderId]''
       = ''/orders/:orderId''"
proof -
  have h: "(\<forall>c \<in> set ''/srv/api/src''. \<not> is_line_terminator c) \<and> ''7'' \<noteq> []
      \<and> (\<forall>c \<in> set ''7''. is_digit c)
      \<and> [''orders'', ''[orderId]'', ''index''] \<noteq> []
      \<and> (\<forall>x \<in> set [''orders'', ''[orderId]'', ''index'']. CHR ''/'' \<notin> set x)
      \<and> \<not> has_marker (''/'' @ js_join ''/'' [''orders'', ''[orderId]'', ''index''] @ ''.ts'')
      \<and> (''.ts'' = ''.ts'' \<or> ''.ts'' = ''.js'')"
    by (simp add: is_line_terminator_def is_digit_def match_routes_version_def startsWith_def)
  note t = determineRoutePath_table
    [where root = "''/srv/api/src''" and ds = "''7''"
       and segs = "[''orders'', ''[orderId]'', ''index'']" and ext = "''.ts''"
       and basePath = "''v7/orders/[orderId]''",
     THEN conjunct1, rule_format, OF h]
  have s: "spec_segment ''orders'' = ''orders''" "spec_segment ''[orderId]'' = '':orderId''"
    "spec_segment ''index'' = []"
    by (simp_all add: spec_segment_def bracket_name_def)
  from h t show ?thesis
    by (simp add: s)
qed




text \<open>
  C9. \<^verbatim>\<open>determineRoutePath\<close> returns a route path for every pair of strings (each
  operation it applies is defined on every string), and the route path does not depend
  on the base path: two calls with the same file path return the same route path.
\<close>

theorem determineRoutePath_ignores_basePath:
  "\<exists>routePath. determineRoutePath filePath basePath1 = routePath
     \<and> determineRoutePath filePath basePath2 = routePath"
  by (simp add: determineRoutePath_def)

text \<open>
  C10. A segment is treated as dynamic exactly when its first character is \<^verbatim>\<open>[\<close> and
  its last character is \<^verbatim>\<open>]\<close>, and the parameter name is the text between them,
  whatever it contains: \<^verbatim>\<open>[x\<close> and \<^verbatim>\<open>x]\<close> are kept, \<^verbatim>\<open>[[x]]\<close> gives \<^verbatim>\<open>:[x]\<close>.
\<close>

theorem determineRoutePath_dynamic_segments:
  "(startsWith seg ''['' \<and> endsWith seg '']'')
     = (seg \<noteq> [] \<and> hd seg = CHR ''['' \<and> last seg = CHR '']'')
   \<and> mapSegment seg =
       (if seg \<noteq> [] \<and> hd seg = CHR ''['' \<and> last seg = CHR '']'' then '':'' @ butlast (tl seg)
        else if seg = ''index'' then [] else seg)
   \<and> determineRoutePath filePath basePath =
       ''/'' @ js_join ''/'' (filter (\<lambda>s. s \<noteq> [])
         (map (\<lambda>seg. if seg \<noteq> [] \<and> hd seg = CHR ''['' \<and> last seg = CHR '']''
                     then '':'' @ butlast (tl seg)
                     else if seg = ''index'' then [] else seg)
            (relativeSegments filePath)))
   \<and> determineRoutePath ''[x'' basePath = ''/[x''
   \<and> determineRoutePath ''x]'' basePath = ''/x]''
   \<and> determineRoutePath ''[[x]]'' basePath = ''/:[x]''
   \<and> determineRoutePath ''/app/src/routes/v1/[[x]].ts'' basePath = ''/:[x]''
   \<and> determineRoutePath ''/app/src/routes/v1/[a]b].ts'' basePath = ''/:a]b''"
proof -
  have a: "(startsWith seg ''['' \<and> endsWith seg '']'')
     = (seg \<noteq> [] \<and> hd seg = CHR ''['' \<and> last seg = CHR '']'')"
    by (auto simp: startsWith_char endsWith_char)
  have b: "mapSegment = (\<lambda>seg. if seg \<noteq> [] \<and> hd seg = CHR ''['' \<and> last seg = CHR '']''
                     then '':'' @ butlast (tl seg)
                     else if seg = ''index'' then [] else seg)"
    by (rule ext) (rule mapSegment_chars)
  have c: "determineRoutePath filePath basePath =
       ''/'' @ js_join ''/'' (filter (\<lambda>s. s \<noteq> []) (map mapSegment (relativeSegments filePath)))"
    by (simp add: determineRoutePath_eq routeSegments_def)
  have t1: "determineRoutePath ''[x'' basePath = ''/[x''" by code_simp
  have t2: "determineRoutePath ''x]'' basePath = ''/x]''" by code_simp
  have t3: "determineRoutePath ''[[x]]'' basePath = ''/:[x]''" by code_simp
  have t4: "determineRoutePath ''/app/src/routes/v1/[[x]].ts'' basePath = ''/:[x]''"
    by code_simp
  have t5: "determineRoutePath ''/app/src/routes/v1/[a]b].ts'' basePath = ''/:a]b''"
    by code_simp
  show ?thesis
    using a c t1 t2 t3 t4 t5 unfolding b by (simp add: mapSegment_chars)
qed

section \<open>Facts about the loader\<close>

lemma registrations_append: "registrations (a @ b) = registrations a @ registrations b"
  by (induction a rule: registrations.induct) auto




lemma loadRouteFile_events:
  "loadRouteFile register fullPath basePath imported s =
     s @ file_events register (registrations s) fullPath basePath imported"
  by (simp add: loadRouteFile_def tryLoadRouteFile_def file_events_def Let_def
      split: import_result.split default_export.split option.split)

lemma processItem_events:
  "processItem register s item = s @ item_events register (registrations s) item"
  by (cases item) (simp_all add: loadRouteFile_events)

lemma loadEntries_walkEntries:
  "(case loadEntries register dirPath basePath entries s of
      Inl (error, s') \<Rightarrow> s' @ [Log (DirectoryError dirPath error)]
    | Inr s' \<Rightarrow> s')
   = foldl (processItem register) s (walkEntries dirPath basePath entries)"
proof (induction dirPath basePath entries arbitrary: s rule: walkEntries.induct)
  case (1 dirPath basePath)
  then show ?case by simp
next
  case (2 dirPath basePath name e rest)
  then show ?case by simp
next
  case (3 dirPath basePath name entries rest)
  have inner: "loadRoutesFromDirectory register (path_join dirPath name)
        (path_join basePath name) (Directory entries) s
      = Inr (foldl (processItem register) s
          (walkEntries (path_join dirPath name) (path_join basePath name) entries))"
    using "3.IH"(1) [of s] by (simp split: sum.splits prod.splits)
  show ?case
    using "3.IH"(2) by (simp add: inner del: loadRoutesFromDirectory.simps)
next
  case (4 dirPath basePath name e rest)
  then show ?case by simp
next
  case (5 dirPath basePath name imported rest)
  then show ?case by simp
next
  case (6 dirPath basePath name rest)
  then show ?case by simp
qed

lemma loadRoutesFromDirectory_walk:
  "loadRoutesFromDirectory register dirPath basePath node s =
     Inr (foldl (processItem register) s (walk dirPath basePath node))"
proof (cases node)
  case (Directory entries)
  then show ?thesis
    using loadEntries_walkEntries
      [where register = register and dirPath = dirPath and basePath = basePath
         and entries = entries and s = s]
    by (simp split: sum.splits prod.splits)
qed simp_all

lemma foldl_run_blocks:
  "foldl (processItem register) s items = s @ concat (run_blocks register (registrations s) items)"
proof (induction items arbitrary: s)
  case Nil
  then show ?case by simp
next
  case (Cons item items)
  have "foldl (processItem register) s (item # items) =
      foldl (processItem register) (processItem register s item) items"
    by simp
  also have "\<dots> = processItem register s item
      @ concat (run_blocks register (registrations (processItem register s item)) items)"
    by (rule Cons.IH)
  also have "\<dots> = s @ concat (run_blocks register (registrations s) (item # items))"
    by (simp add: processItem_events registrations_append)
  finally show ?case .
qed

lemma length_run_blocks: "length (run_blocks register rs items) = length items"
  by (induction items arbitrary: rs) auto

lemma file_events_of_item:
  "e \<in> set (file_events register rs fullPath basePath imported)
     \<Longrightarrow> event_of_item (Candidate fullPath basePath imported) e"
  by (auto simp: file_events_def split: import_result.splits default_export.splits option.splits)

lemma item_events_of_item:
  "e \<in> set (item_events register rs item) \<Longrightarrow> event_of_item item e"
  by (cases item) (auto dest: file_events_of_item)

lemma run_blocks_of_item:
  "i < length items \<Longrightarrow> e \<in> set (run_blocks register rs items ! i)
     \<Longrightarrow> event_of_item (items ! i) e"
proof (induction items arbitrary: rs i)
  case Nil
  then show ?case by simp
next
  case (Cons item items)
  show ?case
  proof (cases i)
    case 0
    with Cons.prems show ?thesis by (auto dest: item_events_of_item)
  next
    case (Suc j)
    with Cons.prems Cons.IH show ?thesis by auto
  qed
qed



lemma registrations_file_events_subseq:
  "subseq (registrations (file_events register rs fullPath basePath imported))
     (expected_registration (fullPath, basePath, imported))"
  by (simp add: file_events_def split: import_result.split default_export.split option.split)

lemma registrations_run_blocks_subseq:
  "subseq (registrations (concat (run_blocks register rs items)))
     (concat (map expected_registration (candidates items)))"
proof (induction items arbitrary: rs)
  case Nil
  then show ?case by simp
next
  case (Cons item items)
  show ?case
  proof (cases item)
    case (Candidate fullPath basePath imported)
    then show ?thesis
      using Cons.IH registrations_file_events_subseq [of register rs fullPath basePath imported]
      by (simp add: registrations_append list_emb_append_mono)
  next
    case (DirectoryFailure dirPath e)
    then show ?thesis using Cons.IH by simp
  qed
qed


subsection \<open>One failing candidate\<close>











subsection \<open>The order of the walk\<close>












section \<open>The loader\<close>

text \<open>
  C1. With a root routes directory that does not exist or cannot be opened, the loader
  performs no registration. It also does not raise: the failure of \<^verbatim>\<open>readdir\<close> is
  caught inside \<^verbatim>\<open>loadRoutesFromDirectory\<close> and logged, so \<^verbatim>\<open>loadRoutes\<close> goes on
  to log that all routes were loaded and returns normally; its own handler, which logs
  and rethrows, is never reached.
\<close>

theorem loadRoutes_missing_root:
  "loadRoutes register cwd (Unresolvable e) s =
     Inr (s @ [Log (LoadingRoutes (routesDir cwd)), Log (DirectoryError (routesDir cwd) e),
               Log AllRoutesLoaded])
   \<and> loadRoutes register cwd (DirectoryUnreadable e) s =
     Inr (s @ [Log (LoadingRoutes (routesDir cwd)), Log (DirectoryError (routesDir cwd) e),
               Log AllRoutesLoaded])
   \<and> registrations (s @ [Log (LoadingRoutes (routesDir cwd)),
        Log (DirectoryError (routesDir cwd) e), Log AllRoutesLoaded]) = registrations s"
  by (simp add: loadRoutes_def registrations_append)







text \<open>
  C5, as the code has it. For every file path with a bracket segment of empty name
  (\<^verbatim>\<open>[]\<close>), the transformer returns a route pattern in which that segment is
  \<^verbatim>\<open>:\<close>, a parameter with a blank name; it reports no failure, and the file is
  registered under that pattern like any other when the server accepts it.
\<close>

theorem determineRoutePath_empty_brackets:
  assumes "''[]'' \<in> set (relativeSegments fullPath)"
    and "register (registrations s) f (determineRoutePath fullPath basePath) = None"
  shows "'':'' \<in> set (js_split CHR ''/'' (determineRoutePath fullPath basePath))
     \<and> [] \<in> set (dynamicParamNames (determineRoutePath fullPath basePath))
     \<and> loadRouteFile register fullPath basePath (Module (Function f)) s
         = s @ [Import fullPath, Register (determineRoutePath fullPath basePath) f,
                Log (LoadedRoute (determineRoutePath fullPath basePath) fullPath basePath)]"
proof -
  have m: "mapSegment ''[]'' = '':''" by (simp add: mapSegment_chars)
  have "'':'' \<in> mapSegment ` set (relativeSegments fullPath)"
    by (rule image_eqI [where f = mapSegment, OF m [symmetric] assms(1)])
  then have r: "'':'' \<in> set (routeSegments fullPath)"
    by (simp add: routeSegments_def)
  then have ne: "routeSegments fullPath \<noteq> []" by auto
  have a: "'':'' \<in> set (js_split CHR ''/'' (determineRoutePath fullPath basePath))"
    using r ne by (simp add: js_split_determineRoutePath)
  have "drop 1 '':'' \<in> set (dynamicParamNames (determineRoutePath fullPath basePath))"
    unfolding dynamicParamNames_determineRoutePath set_map
    using r by (intro imageI) (simp add: startsWith_def)
  then have b: "[] \<in> set (dynamicParamNames (determineRoutePath fullPath basePath))" by simp
  have c: "loadRouteFile register fullPath basePath (Module (Function f)) s
         = s @ [Import fullPath, Register (determineRoutePath fullPath basePath) f,
                Log (LoadedRoute (determineRoutePath fullPath basePath) fullPath basePath)]"
    using assms(2) by (simp add: loadRouteFile_events file_events_def)
  from a b c show ?thesis by simp
qed

theorem determineRoutePath_empty_brackets_witness:
  "''[]'' \<in> set (relativeSegments ''/app/src/routes/v1/users/[].ts'')
   \<and> always_accepts (registrations []) (0::nat)
        (determineRoutePath ''/app/src/routes/v1/users/[].ts'' ''v1/users'') = None
   \<and> '':'' \<in> set (js_split CHR ''/''
        (determineRoutePath ''/app/src/routes/v1/users/[].ts'' ''v1/users''))
   \<and> loadRouteFile always_accepts ''/app/src/routes/v1/users/[].ts'' ''v1/users''
        (Module (Function (0::nat))) []
       = [Import ''/app/src/routes/v1/users/[].ts'', Register ''/users/:'' 0,
          Log (LoadedRoute ''/users/:'' ''/app/src/routes/v1/users/[].ts'' ''v1/users'')]"
proof -
  have h1: "''[]'' \<in> set (relativeSegments ''/app/src/routes/v1/users/[].ts'')"
    by code_simp
  have h2: "always_accepts (registrations []) (0::nat)
        (determineRoutePath ''/app/src/routes/v1/users/[].ts'' ''v1/users'') = None"
    by (simp add: always_accepts_def)
  have d: "determineRoutePath ''/app/src/routes/v1/users/[].ts'' ''v1/users'' = ''/users/:''"
    by code_simp
  from determineRoutePath_empty_brackets
    [where fullPath = "''/app/src/routes/v1/users/[].ts''" and basePath = "''v1/users''"
       and register = always_accepts and s = "[]" and f = "0::nat", OF h1 h2] h1 h2
  show ?thesis
    by (simp add: d)
qed

theorem empty_brackets_counterexample:
  "determineRoutePath ''users/[]'' [] = ''/users/:''
   \<and> determineRoutePath ''/app/src/routes/v1/users/[].ts'' ''v1/users'' = ''/users/:''
   \<and> dynamicParamNames ''/users/:'' = [[]]
   \<and> loadRoutes always_accepts ''/app''
        (Directory [(''v1'', Directory [(''users'', Directory
           [(''[].ts'', RegularFile (Module (Function (0::nat))))])])]) []
      = Inr [Log (LoadingRoutes ''/app/src/routes''),
             Import ''/app/src/routes/v1/users/[].ts'',
             Register ''/users/:'' 0,
             Log (LoadedRoute ''/users/:'' ''/app/src/routes/v1/users/[].ts'' ''v1/users''),
             Log AllRoutesLoaded]"
  by code_simp



text \<open>
  C8. The effects of a run are one block per item of the walk, in walk order: every
  event of a block is the import, the registration or the log record of the candidate
  of that block, so the whole pipeline of a candidate precedes every event of a later
  candidate, and the registrations follow the walk order.
\<close>

theorem loadRoutesFromDirectory_sequential:
  "loadRoutesFromDirectory register dirPath basePath node s
     = Inr (s @ concat (run_blocks register (registrations s) (walk dirPath basePath node)))
   \<and> length (run_blocks register (registrations s) (walk dirPath basePath node))
       = length (walk dirPath basePath node)
   \<and> (\<forall>i < length (walk dirPath basePath node).
        \<forall>e \<in> set (run_blocks register (registrations s) (walk dirPath basePath node) ! i).
          event_of_item (walk dirPath basePath node ! i) e)
   \<and> subseq (registrations
               (concat (run_blocks register (registrations s) (walk dirPath basePath node))))
        (concat (map expected_registration (candidates (walk dirPath basePath node))))"
proof (intro conjI allI impI ballI)
  show "loadRoutesFromDirectory register dirPath basePath node s
     = Inr (s @ concat (run_blocks register (registrations s) (walk dirPath basePath node)))"
    by (simp add: loadRoutesFromDirectory_walk foldl_run_blocks)
next
  show "length (run_blocks register (registrations s) (walk dirPath basePath node))
       = length (walk dirPath basePath node)"
    by (rule length_run_blocks)
next
  fix i e
  assume "i < length (walk dirPath basePath node)"
    and "e \<in> set (run_blocks register (registrations s) (walk dirPath basePath node) ! i)"
  then show "event_of_item (walk dirPath basePath node ! i) e"
    by (rule run_blocks_of_item)
next
  show "subseq (registrations
               (concat (run_blocks register (registrations s) (walk dirPath basePath node))))
        (concat (map expected_registration (candidates (walk dirPath basePath node))))"
    by (rule registrations_run_blocks_subseq)
qed

theorem loadRoutesFromDirectory_sequential_witness:
  "1 < length (walk ''/app/src/routes/v1'' ''v1''
         (Directory [(''a.ts'', RegularFile (Module (Function (1::nat)))),
                     (''b.ts'', RegularFile (Module (Function 2)))]))
   \<and> Register ''/b'' 2 \<in> set (run_blocks always_accepts (registrations [])
         (walk ''/app/src/routes/v1'' ''v1''
           (Directory [(''a.ts'', RegularFile (Module (Function (1::nat)))),
                       (''b.ts'', RegularFile (Module (Function 2)))])) ! 1)
   \<and> event_of_item
        (walk ''/app/src/routes/v1'' ''v1''
           (Directory [(''a.ts'', RegularFile (Module (Function (1::nat)))),
                       (''b.ts'', RegularFile (Module (Function 2)))]) ! 1)
        (Register ''/b'' 2)"
proof -
  let ?node = "Directory [(''a.ts'', RegularFile (Module (Function (1::nat)))),
                     (''b.ts'', RegularFile (Module (Function 2)))]"
  have h1: "1 < length (walk ''/app/src/routes/v1'' ''v1'' ?node)" by code_simp
  have h2: "Register ''/b'' 2 \<in> set (run_blocks always_accepts (registrations [])
         (walk ''/app/src/routes/v1'' ''v1'' ?node) ! 1)"
    by code_simp
  note t = loadRoutesFromDirectory_sequential
    [where register = always_accepts and dirPath = "''/app/src/routes/v1''" and basePath = "''v1''"
       and node = ?node and s = "[]",
     THEN conjunct2, THEN conjunct2, THEN conjunct1, rule_format, OF h1 h2]
  show ?thesis
    by (intro conjI) (rule h1, rule h2, rule t)
qed

end
